theory Spec2Isabelle
  imports Main
begin

section \<open>The chat server of \<^verbatim>\<open>src/server.cpp\<close>\<close>

text \<open>
  The server keeps two globals, \<^verbatim>\<open>std::vector<int> clients\<close> and
  \<^verbatim>\<open>std::map<int, std::string> client_names\<close>, and drives them from one
  \<^verbatim>\<open>while (true)\<close> loop around \<^verbatim>\<open>select()\<close>. The model threads both globals
  through every function, together with the ordered trace of what the code does:
  its system calls (\<^verbatim>\<open>send\<close>, \<^verbatim>\<open>close\<close>), its console lines, and ghost marks for the
  calls of \<^verbatim>\<open>broadcast\<close>, for every statement that changes one of the two containers
  and for every execution of the body of the client loop. Socket descriptors are C
  \<^verbatim>\<open>int\<close>s; the code only compares them, so they are modelled as \<open>int\<close>.
\<close>

subsection \<open>State and trace\<close>

datatype chunk = S string | N int

datatype event =
    Cout "chunk list"
  | Cerr "chunk list"
  | Send int string
  | Close int
  | Call_broadcast string int
  | Visit int
  | Names_default_insert int
  | Names_assign int string
  | Names_erase int
  | Clients_push_back int
  | Clients_erase nat

record server =
  clients :: "int list"
  client_names :: "int \<rightharpoonup> string"
  trace :: "event list"

definition emit :: "event \<Rightarrow> server \<Rightarrow> server" where
  "emit e st = st\<lparr>trace := trace st @ [e]\<rparr>"

definition initial :: server where
  "initial = \<lparr>clients = [], client_names = Map.empty, trace = []\<rparr>"

text \<open>The events a step appended to the trace.\<close>

definition emitted :: "server \<Rightarrow> server \<Rightarrow> event list" where
  "emitted st st' = drop (length (trace st)) (trace st')"

text \<open>
  What holds of the two containers whenever the loop is running: the tracked
  descriptors are pairwise different and non-negative (\<^verbatim>\<open>accept\<close> returns a descriptor
  that is not open, and only a non-negative one is stored), and only tracked
  descriptors have a username entry.
\<close>

definition registry_ok :: "server \<Rightarrow> bool" where
  "registry_ok st \<longleftrightarrow>
     distinct (clients st) \<and> (\<forall>c \<in> set (clients st). 0 \<le> c) \<and>
     dom (client_names st) \<subseteq> set (clients st)"

subsection \<open>Container operations\<close>

text \<open>
  \<^verbatim>\<open>client_names[k]\<close> read as a value: \<^verbatim>\<open>std::map::operator[]\<close> inserts a
  default-constructed (empty) string when the key is absent and returns the stored
  string.
\<close>

definition names_index :: "int \<Rightarrow> server \<Rightarrow> string \<times> server" where
  "names_index k st =
     (case client_names st k of
        Some v \<Rightarrow> (v, st)
      | None \<Rightarrow> ([], emit (Names_default_insert k)
                        (st\<lparr>client_names := (client_names st)(k \<mapsto> [])\<rparr>)))"

text \<open>\<^verbatim>\<open>client_names[k] = v;\<close>\<close>

definition names_assign :: "int \<Rightarrow> string \<Rightarrow> server \<Rightarrow> server" where
  "names_assign k v st =
     emit (Names_assign k v) (st\<lparr>client_names := (client_names st)(k \<mapsto> v)\<rparr>)"

text \<open>\<^verbatim>\<open>client_names.erase(k);\<close> removes the entry when there is one.\<close>

definition names_erase :: "int \<Rightarrow> server \<Rightarrow> server" where
  "names_erase k st =
     (if client_names st k = None then st
      else emit (Names_erase k) (st\<lparr>client_names := (client_names st)(k := None)\<rparr>))"

text \<open>\<^verbatim>\<open>clients.push_back(fd);\<close>\<close>

definition clients_push_back :: "int \<Rightarrow> server \<Rightarrow> server" where
  "clients_push_back fd st = emit (Clients_push_back fd) (st\<lparr>clients := clients st @ [fd]\<rparr>)"

text \<open>
  \<^verbatim>\<open>clients.erase(clients.begin() + i);\<close> The code calls it only with
  \<open>i < clients.size()\<close>.
\<close>

definition clients_erase :: "nat \<Rightarrow> server \<Rightarrow> server" where
  "clients_erase i st =
     emit (Clients_erase i) (st\<lparr>clients := take i (clients st) @ drop (Suc i) (clients st)\<rparr>)"

subsection \<open>\<^verbatim>\<open>broadcast\<close> (lines 40-46)\<close>

fun send_each :: "int list \<Rightarrow> string \<Rightarrow> int \<Rightarrow> server \<Rightarrow> server" where
  "send_each [] message sender_socket st = st"
| "send_each (client # rest) message sender_socket st =
     send_each rest message sender_socket
       (if client \<noteq> sender_socket then emit (Send client message) st else st)"

definition broadcast :: "string \<Rightarrow> int \<Rightarrow> server \<Rightarrow> server" where
  "broadcast message sender_socket st =
     send_each (clients st) message sender_socket
       (emit (Call_broadcast message sender_socket) st)"

subsection \<open>Reading one chunk (lines 148-150, 177)\<close>

definition NUL :: char where
  "NUL = CHR 0x00"

text \<open>
  The 1024-byte buffer after \<^verbatim>\<open>memset(buffer, 0, sizeof(buffer))\<close> and a
  \<^verbatim>\<open>read(client, buffer, 1024)\<close> that delivered the bytes \<open>data\<close>.
\<close>

definition fill_buffer :: "string \<Rightarrow> string" where
  "fill_buffer data = take 1024 data @ replicate (1024 - length data) NUL"

text \<open>
  \<^verbatim>\<open>std::string message(buffer)\<close> copies the bytes before the first NUL. A buffer
  without any NUL (a read of 1024 nonzero bytes) makes the constructor run past the
  array, which is undefined behaviour: \<open>None\<close>.
\<close>

definition std_string :: "string \<Rightarrow> string option" where
  "std_string buffer =
     (if NUL \<in> set buffer then Some (takeWhile (\<lambda>b. b \<noteq> NUL) buffer) else None)"

subsection \<open>The Session Lifecycle Handler (lines 153-199)\<close>

text \<open>
  Lines 153-171: the read returned zero or a negative value. \<open>peer_reset\<close> says
  whether the read left the connection reset by the peer (the read failed with the
  reset, or the peer had answered an earlier send with one), so that a \<^verbatim>\<open>send\<close> on the
  descriptor now raises SIGPIPE. The program sends with flags 0 and installs no
  handler for the signal. When the departure notice is broadcast (line 163) the
  leaving descriptor is still in \<^verbatim>\<open>clients\<close> (it is erased at line 169) and, not being
  the excluded \<open>-1\<close>, is sent the notice: on a reset connection the process ends
  inside \<^verbatim>\<open>broadcast\<close> and lines 168-171 are not reached, which is the result \<open>None\<close>.
\<close>

definition on_disconnect :: "bool \<Rightarrow> int \<Rightarrow> server \<Rightarrow> (int \<times> server) option" where
  "on_disconnect peer_reset i st0 =
     (let client = clients st0 ! nat i;
          (leaving_user, st1) = names_index client st0;
          notified =
            (if leaving_user = []
             then Some (emit (Cout [S ''Client (socket '', N client, S '')'']) st1)
             else if peer_reset \<and> client \<noteq> - 1 then None
             else Some (broadcast (leaving_user @ '' has left the chat'') (- 1)
                          (emit (Cout [S leaving_user, S '' disconnected'']) st1)))
      in case notified of
           None \<Rightarrow> None
         | Some st2 \<Rightarrow>
             (let st3 = emit (Close client) st2;
                  st4 = clients_erase (nat i) st3;
                  st5 = names_erase client st4
              in Some (i - 1, st5)))"

text \<open>Lines 181-198: the read delivered \<open>message\<close>.\<close>

definition on_message :: "int \<Rightarrow> string \<Rightarrow> server \<Rightarrow> server" where
  "on_message client message st0 =
     (if client_names st0 client = None then
        (let st1 = names_assign client message st0;
             st2 = emit (Cout [S message, S '' has joined the chat!'']) st1;
             join_msg = message @ '' has joined the chat!''
         in broadcast join_msg client st2)
      else
        (let (username, st1) = names_index client st0;
             st2 = emit (Cout [S username, S '': '', S message]) st1;
             full_msg = username @ '': '' @ message
         in broadcast full_msg client st2))"

text \<open>
  One read event on \<open>clients[i]\<close>: \<open>valread\<close> is what \<^verbatim>\<open>read\<close> returned, \<open>data\<close>
  the bytes it delivered and \<open>peer_reset\<close> whether it left the connection reset.
  The result is the loop index after the body (before the loop's \<^verbatim>\<open>i++\<close>) and the new
  state, or \<open>None\<close> when the body does not return to the loop: line 177 ran past the
  buffer, or SIGPIPE ended the process.
\<close>

definition read_event ::
  "int \<Rightarrow> int \<Rightarrow> string \<Rightarrow> bool \<Rightarrow> server \<Rightarrow> (int \<times> server) option" where
  "read_event i valread data peer_reset st =
     (if valread \<le> 0 then on_disconnect peer_reset i st
      else (case std_string (fill_buffer data) of
              None \<Rightarrow> None
            | Some message \<Rightarrow> Some (i, on_message (clients st ! nat i) message st)))"

subsection \<open>The client loop (lines 141-201)\<close>

text \<open>
  What the operating system answers during one iteration of the main loop: the value
  of \<^verbatim>\<open>select\<close>, the descriptors it reports readable, the value of \<^verbatim>\<open>accept\<close> and,
  for each descriptor, the value of \<^verbatim>\<open>read\<close> with the bytes delivered; and the
  descriptors whose read leaves the connection reset by the peer, so that a \<^verbatim>\<open>send\<close>
  on them after that read raises SIGPIPE. A peer is known to be gone only through the
  read on its own descriptor, and the one send that follows such a read is the
  departure notice to the leaving descriptor; every other \<^verbatim>\<open>send\<close> is taken to
  return.
\<close>

record env =
  server_fd :: int
  activity :: int
  readable :: "int list"
  new_client :: int
  rd :: "int \<Rightarrow> int \<times> string"
  reset :: "int list"

text \<open>Lines 142-200: the body of the loop at index \<open>i\<close>.\<close>

definition client_step :: "env \<Rightarrow> int list \<Rightarrow> int \<Rightarrow> server \<Rightarrow> (int \<times> server) option" where
  "client_step e read_fds i st0 =
     (let client = clients st0 ! nat i;
          st = emit (Visit client) st0
      in if client \<in> set read_fds
         then (let (valread, data) = rd e client
               in read_event i valread data (client \<in> set (reset e)) st)
         else Some (i, st))"

subsection \<open>Basic facts about the operations\<close>

lemma emit_simps [simp]:
  "clients (emit e st) = clients st"
  "client_names (emit e st) = client_names st"
  "trace (emit e st) = trace st @ [e]"
  by (simp_all add: emit_def)

lemma send_each_simps [simp]:
  "clients (send_each cs m x st) = clients st"
  "client_names (send_each cs m x st) = client_names st"
  "trace (send_each cs m x st) = trace st @ map (\<lambda>c. Send c m) (filter (\<lambda>c. c \<noteq> x) cs)"
  by (induction cs arbitrary: st) simp_all

lemma broadcast_simps [simp]:
  "clients (broadcast m x st) = clients st"
  "client_names (broadcast m x st) = client_names st"
  "trace (broadcast m x st) =
     trace st @ Call_broadcast m x # map (\<lambda>c. Send c m) (filter (\<lambda>c. c \<noteq> x) (clients st))"
  by (simp_all add: broadcast_def)

lemma names_assign_simps [simp]:
  "clients (names_assign k v st) = clients st"
  "client_names (names_assign k v st) = (client_names st)(k \<mapsto> v)"
  "trace (names_assign k v st) = trace st @ [Names_assign k v]"
  by (simp_all add: names_assign_def)

lemma names_erase_simps [simp]:
  "clients (names_erase k st) = clients st"
  "client_names (names_erase k st) = (client_names st)(k := None)"
  "trace (names_erase k st) =
     trace st @ (if client_names st k = None then [] else [Names_erase k])"
  by (auto simp: names_erase_def)

lemma clients_erase_simps [simp]:
  "clients (clients_erase i st) = take i (clients st) @ drop (Suc i) (clients st)"
  "client_names (clients_erase i st) = client_names st"
  "trace (clients_erase i st) = trace st @ [Clients_erase i]"
  by (simp_all add: clients_erase_def)

lemma clients_push_back_simps [simp]:
  "clients (clients_push_back fd st) = clients st @ [fd]"
  "client_names (clients_push_back fd st) = client_names st"
  "trace (clients_push_back fd st) = trace st @ [Clients_push_back fd]"
  by (simp_all add: clients_push_back_def)

lemma names_index_Some:
  "client_names st k = Some v \<Longrightarrow> names_index k st = (v, st)"
  by (simp add: names_index_def)

lemma names_index_None:
  "client_names st k = None \<Longrightarrow>
   names_index k st =
     ([], emit (Names_default_insert k) (st\<lparr>client_names := (client_names st)(k \<mapsto> [])\<rparr>))"
  by (simp add: names_index_def)

lemma names_index_clients [simp]: "clients (snd (names_index k st)) = clients st"
  by (simp add: names_index_def split: option.splits)

lemma on_disconnect_shape:
  assumes "on_disconnect r i st = Some (i', st')"
  shows "i' = i - 1"
    and "clients st' = take (nat i) (clients st) @ drop (Suc (nat i)) (clients st)"
  using assms names_index_clients [of "clients st ! nat i" st]
  by (cases "names_index (clients st ! nat i) st";
      auto simp: on_disconnect_def Let_def split: if_splits)+

lemma on_message_clients [simp]: "clients (on_message c m st) = clients st"
  by (cases "names_index c st")
     (use names_index_clients [of c st] in \<open>simp add: on_message_def Let_def\<close>)

lemma read_event_shape:
  assumes "read_event i valread data r st = Some (i', st')"
  shows "(valread \<le> 0 \<and> i' = i - 1 \<and>
            clients st' = take (nat i) (clients st) @ drop (Suc (nat i)) (clients st))
         \<or> (0 < valread \<and> i' = i \<and> clients st' = clients st)"
proof (cases "valread \<le> 0")
  case True
  with assms have "on_disconnect r i st = Some (i', st')" by (simp add: read_event_def)
  from on_disconnect_shape [OF this] True show ?thesis by simp
next
  case False
  with assms show ?thesis
    by (auto simp: read_event_def split: option.splits)
qed

lemma client_step_shape:
  assumes "client_step e read_fds i st = Some (i', st')"
  shows "(i' = i - 1 \<and>
            clients st' = take (nat i) (clients st) @ drop (Suc (nat i)) (clients st))
         \<or> (i' = i \<and> clients st' = clients st)"
proof (cases "clients st ! nat i \<in> set read_fds")
  case True
  obtain valread data where r: "rd e (clients st ! nat i) = (valread, data)"
    by (cases "rd e (clients st ! nat i)")
  from assms True r
  have "read_event i valread data (clients st ! nat i \<in> set (reset e))
          (emit (Visit (clients st ! nat i)) st) = Some (i', st')"
    by (simp add: client_step_def Let_def)
  from read_event_shape [OF this] show ?thesis by auto
next
  case False
  with assms show ?thesis by (auto simp: client_step_def Let_def)
qed

text \<open>
  Lines 141-201. The condition \<^verbatim>\<open>i < clients.size()\<close> compares the \<^verbatim>\<open>int\<close> index as
  an unsigned value, so a negative index would end the loop.
\<close>

function client_loop :: "env \<Rightarrow> int list \<Rightarrow> int \<Rightarrow> server \<Rightarrow> server option" where
  "client_loop e read_fds i st =
     (if 0 \<le> i \<and> i < int (length (clients st)) then
        (case client_step e read_fds i st of
           None \<Rightarrow> None
         | Some (i', st') \<Rightarrow> client_loop e read_fds (i' + 1) st')
      else Some st)"
  by pat_completeness auto
termination
proof (relation "measure (\<lambda>(e, read_fds, i, st). nat (int (length (clients st)) - i))")
  show "wf (measure (\<lambda>(e, read_fds, i, st). nat (int (length (clients st)) - i)))"
    by simp
next
  fix e :: env and read_fds i st x2 i' st'
  assume range: "0 \<le> i \<and> i < int (length (clients st))"
    and step: "client_step e read_fds i st = Some x2" and x2: "(i', st') = x2"
  from step x2 have "client_step e read_fds i st = Some (i', st')" by simp
  from client_step_shape [OF this] range
  show "((e, read_fds, i' + 1, st'), (e, read_fds, i, st))
        \<in> measure (\<lambda>(e, read_fds, i, st). nat (int (length (clients st)) - i))"
    by auto
qed

declare client_loop.simps [simp del]

subsection \<open>One iteration of the main loop (lines 89-201)\<close>

text \<open>
  \<^verbatim>\<open>read_fds\<close> after \<^verbatim>\<open>select\<close>: of the descriptors entered with \<^verbatim>\<open>FD_SET\<close> (the
  listening socket and every element of \<^verbatim>\<open>clients\<close>), those reported readable.
\<close>

definition select_fds :: "env \<Rightarrow> server \<Rightarrow> int list" where
  "select_fds e st = filter (\<lambda>fd. fd \<in> set (readable e)) (server_fd e # clients st)"

definition accept_client :: "int \<Rightarrow> server \<Rightarrow> server" where
  "accept_client fd st0 =
     (let st1 = clients_push_back fd st0;
          st2 = emit (Cout [S ''New client connected (socket '', N fd, S '')'']) st1;
          prompt = ''Enter your username: ''
      in emit (Send fd prompt) st2)"

definition main_iteration :: "env \<Rightarrow> server \<Rightarrow> server option" where
  "main_iteration e st =
     (let read_fds = select_fds e st in
      if activity e < 0 then Some (emit (Cerr [S ''Select error'']) st)
      else if server_fd e \<in> set read_fds then
        (if new_client e < 0 then Some (emit (Cerr [S ''Accept failed!'']) st)
         else client_loop e read_fds 0 (accept_client (new_client e) st))
      else client_loop e read_fds 0 st)"

subsection \<open>The main loop (lines 86-202)\<close>

text \<open>
  \<^verbatim>\<open>while (true)\<close> over the answers of the operating system to a finite number of
  iterations; \<open>connects fd\<close> is an iteration in which only the listening socket
  (descriptor 3) is readable and \<^verbatim>\<open>accept\<close> returns \<open>fd\<close>, \<open>delivers fd valread data\<close> one
  in which only connection \<open>fd\<close> is readable and \<^verbatim>\<open>read\<close> answers \<open>valread\<close> and \<open>data\<close>,
  \<open>resets fd\<close> one in which only connection \<open>fd\<close> is readable, its peer has reset the
  connection and \<^verbatim>\<open>read\<close> answers \<open>-1\<close>.
\<close>

fun main_loop :: "env list \<Rightarrow> server \<Rightarrow> server option" where
  "main_loop [] st = Some st"
| "main_loop (e # es) st =
     (case main_iteration e st of None \<Rightarrow> None | Some st' \<Rightarrow> main_loop es st')"

definition connects :: "int \<Rightarrow> env" where
  "connects fd = \<lparr>server_fd = 3, activity = 1, readable = [3], new_client = fd,
                  rd = (\<lambda>fd. (0, [])), reset = []\<rparr>"

definition resets :: "int \<Rightarrow> env" where
  "resets fd = \<lparr>server_fd = 3, activity = 1, readable = [fd], new_client = - 1,
                rd = (\<lambda>fd. (- 1, [])), reset = [fd]\<rparr>"

definition delivers :: "int \<Rightarrow> int \<Rightarrow> string \<Rightarrow> env" where
  "delivers fd valread data = \<lparr>server_fd = 3, activity = 1, readable = [fd], new_client = - 1,
                  rd = (\<lambda>fd. (valread, data)), reset = []\<rparr>"

subsection \<open>Reading the trace\<close>

text \<open>
  Which events are changes of \<^verbatim>\<open>client_names\<close>, changes of \<^verbatim>\<open>clients\<close>, calls of
  \<^verbatim>\<open>broadcast\<close> and calls of \<^verbatim>\<open>send\<close>; the descriptors for which the body of the
  client loop ran, in order; and which tracked descriptors a list of readable
  descriptors and the answers of \<^verbatim>\<open>read\<close> make disconnect or overrun the buffer,
  and which of them end the process: they disconnect with a non-empty username
  while their peer has reset the connection.
\<close>

fun names_mutation :: "event \<Rightarrow> bool" where
  "names_mutation (Names_default_insert k) = True"
| "names_mutation (Names_assign k v) = True"
| "names_mutation (Names_erase k) = True"
| "names_mutation _ = False"

fun clients_mutation :: "event \<Rightarrow> bool" where
  "clients_mutation (Clients_push_back fd) = True"
| "clients_mutation (Clients_erase i) = True"
| "clients_mutation _ = False"

fun broadcast_call :: "event \<Rightarrow> bool" where
  "broadcast_call (Call_broadcast m x) = True"
| "broadcast_call _ = False"

fun is_send :: "event \<Rightarrow> bool" where
  "is_send (Send d m) = True"
| "is_send _ = False"

definition disconnects :: "env \<Rightarrow> int list \<Rightarrow> int \<Rightarrow> bool" where
  "disconnects e read_fds c \<longleftrightarrow> c \<in> set read_fds \<and> fst (rd e c) \<le> 0"

definition overruns :: "env \<Rightarrow> int list \<Rightarrow> int \<Rightarrow> bool" where
  "overruns e read_fds c \<longleftrightarrow>
     c \<in> set read_fds \<and> 0 < fst (rd e c) \<and> std_string (fill_buffer (snd (rd e c))) = None"

definition sigpipes :: "env \<Rightarrow> int list \<Rightarrow> server \<Rightarrow> int \<Rightarrow> bool" where
  "sigpipes e read_fds st c \<longleftrightarrow>
     disconnects e read_fds c \<and> c \<in> set (reset e) \<and> c \<noteq> - 1 \<and>
     (case client_names st c of None \<Rightarrow> False | Some u \<Rightarrow> u \<noteq> [])"

fun visits :: "event list \<Rightarrow> int list" where
  "visits [] = []"
| "visits (Visit c # es) = c # visits es"
| "visits (_ # es) = visits es"

subsection \<open>Example states\<close>

text \<open>
  Three connections, two of which have sent a username; two connections that chose
  the same username; a connection whose username is empty; a readiness report
  where the listening socket (descriptor 3) and connection 4 are readable while
  \<^verbatim>\<open>accept\<close> fails; and one where connections 5 and 6 are readable and 5 has
  closed.
\<close>

definition room :: server where
  "room = \<lparr>clients = [4, 5, 6], client_names = [4 \<mapsto> ''alice'', 5 \<mapsto> ''bob''], trace = []\<rparr>"

definition twins :: server where
  "twins = \<lparr>clients = [4, 5], client_names = [4 \<mapsto> ''bob'', 5 \<mapsto> ''bob''], trace = []\<rparr>"

definition nameless :: server where
  "nameless = \<lparr>clients = [4, 5], client_names = [4 \<mapsto> [], 5 \<mapsto> ''bob''], trace = []\<rparr>"

definition accept_fails :: env where
  "accept_fails = \<lparr>server_fd = 3, activity = 2, readable = [3, 4], new_client = - 1,
                    rd = (\<lambda>fd. (2, ''hi'')), reset = []\<rparr>"

definition one_leaves :: env where
  "one_leaves = \<lparr>server_fd = 3, activity = 2, readable = [5, 6], new_client = - 1,
                  rd = (\<lambda>fd. if fd = 5 then (0, []) else (2, ''hi'')), reset = []\<rparr>"

subsection \<open>Lists, traces and the read buffer\<close>

lemma emitted_append [simp]: "trace st' = trace st @ es \<Longrightarrow> emitted st st' = es"
  by (simp add: emitted_def)

lemma set_erase_nth:
  assumes "distinct xs" "i < length xs"
  shows "set (take i xs @ drop (Suc i) xs) = set xs - {xs ! i}"
proof -
  have xs: "xs = take i xs @ xs ! i # drop (Suc i) xs"
    using assms(2) by (rule id_take_nth_drop)
  with assms(1) have "distinct (take i xs @ xs ! i # drop (Suc i) xs)" by simp
  then have "xs ! i \<notin> set (take i xs) \<union> set (drop (Suc i) xs)" by auto
  moreover have "set xs = set (take i xs) \<union> {xs ! i} \<union> set (drop (Suc i) xs)"
    by (subst xs) auto
  ultimately show ?thesis by auto
qed

lemma distinct_erase_nth:
  "distinct xs \<Longrightarrow> distinct (take i xs @ drop (Suc i) xs)"
  using set_take_disj_set_drop_if_distinct [of xs i "Suc i"] by simp

lemma count_sends:
  "distinct cs \<Longrightarrow>
   count_list (map (\<lambda>c. Send c m) (filter (\<lambda>c. c \<noteq> x) cs)) (Send d m') =
     (if d \<in> set cs \<and> d \<noteq> x \<and> m' = m then 1 else 0)"
  by (induction cs) auto

lemma takeWhile_replicate_NUL [simp]: "takeWhile (\<lambda>b. b \<noteq> NUL) (replicate n NUL) = []"
  by (cases n) simp_all

lemma std_string_fill_buffer:
  "std_string (fill_buffer data) =
     (if length data < 1024 \<or> NUL \<in> set (take 1024 data)
      then Some (takeWhile (\<lambda>b. b \<noteq> NUL) (take 1024 data)) else None)"
proof (cases "NUL \<in> set (take 1024 data)")
  case True
  then show ?thesis
    by (simp add: std_string_def fill_buffer_def takeWhile_append1)
next
  case False
  then have all: "\<forall>b \<in> set (take 1024 data). b \<noteq> NUL" by auto
  have "takeWhile (\<lambda>b. b \<noteq> NUL) (fill_buffer data)
        = take 1024 data @ takeWhile (\<lambda>b. b \<noteq> NUL) (replicate (1024 - length data) NUL)"
    unfolding fill_buffer_def by (rule takeWhile_append2) (use all in auto)
  then have 1: "takeWhile (\<lambda>b. b \<noteq> NUL) (fill_buffer data) = take 1024 data" by simp
  from all have 2: "takeWhile (\<lambda>b. b \<noteq> NUL) (take 1024 data) = take 1024 data"
    by (simp add: takeWhile_eq_all_conv)
  from False have 3: "NUL \<in> set (fill_buffer data) \<longleftrightarrow> length data < 1024"
    unfolding fill_buffer_def by auto
  show ?thesis
    unfolding std_string_def 1 2 3 using False by simp
qed

lemma filter_Send [simp]:
  "filter names_mutation (map (\<lambda>d. Send d m) ds) = []"
  "filter clients_mutation (map (\<lambda>d. Send d m) ds) = []"
  "filter broadcast_call (map (\<lambda>d. Send d m) ds) = []"
  by (induction ds) simp_all

lemma visits_append [simp]: "visits (es @ fs) = visits es @ visits fs"
  by (induction es rule: visits.induct) simp_all

lemma visits_Send [simp]: "visits (map (\<lambda>d. Send d m) ds) = []"
  by (induction ds) simp_all

lemma nonneg_filter: "\<forall>c \<in> set cs. (0::int) \<le> c \<Longrightarrow> filter (\<lambda>d. d \<noteq> - 1) cs = cs"
  by (auto simp: filter_id_conv)

subsection \<open>The handler, case by case\<close>

lemma on_disconnect_absent:
  assumes "client_names st (clients st ! nat i) = None"
  shows "on_disconnect r i st =
     Some (i - 1, st\<lparr>clients := take (nat i) (clients st) @ drop (Suc (nat i)) (clients st),
                client_names := (client_names st)(clients st ! nat i := None),
                trace := trace st @
                  [Names_default_insert (clients st ! nat i),
                   Cout [S ''Client (socket '', N (clients st ! nat i), S '')''],
                   Close (clients st ! nat i), Clients_erase (nat i),
                   Names_erase (clients st ! nat i)]\<rparr>)"
  using assms
  by (simp add: on_disconnect_def names_index_None Let_def emit_def clients_erase_def
      names_erase_def)

lemma on_disconnect_empty:
  assumes "client_names st (clients st ! nat i) = Some []"
  shows "on_disconnect r i st =
     Some (i - 1, st\<lparr>clients := take (nat i) (clients st) @ drop (Suc (nat i)) (clients st),
                client_names := (client_names st)(clients st ! nat i := None),
                trace := trace st @
                  [Cout [S ''Client (socket '', N (clients st ! nat i), S '')''],
                   Close (clients st ! nat i), Clients_erase (nat i),
                   Names_erase (clients st ! nat i)]\<rparr>)"
  using assms
  by (simp add: on_disconnect_def names_index_Some Let_def emit_def clients_erase_def
      names_erase_def)

lemma on_disconnect_named:
  assumes "client_names st (clients st ! nat i) = Some u" "u \<noteq> []"
    and "\<not> (r \<and> clients st ! nat i \<noteq> - 1)"
  shows "on_disconnect r i st =
     Some (i - 1, st\<lparr>clients := take (nat i) (clients st) @ drop (Suc (nat i)) (clients st),
                client_names := (client_names st)(clients st ! nat i := None),
                trace := trace st @
                  [Cout [S u, S '' disconnected''],
                   Call_broadcast (u @ '' has left the chat'') (- 1)] @
                  map (\<lambda>d. Send d (u @ '' has left the chat''))
                    (filter (\<lambda>d. d \<noteq> - 1) (clients st)) @
                  [Close (clients st ! nat i), Clients_erase (nat i),
                   Names_erase (clients st ! nat i)]\<rparr>)"
  using assms
  by (simp add: on_disconnect_def names_index_Some Let_def clients_erase_def
      names_erase_def emit_def broadcast_def)

text \<open>
  The departure of a connection with a username whose peer has reset it: the process
  ends in \<^verbatim>\<open>broadcast\<close>, nothing is closed or erased.
\<close>

lemma on_disconnect_sigpipe:
  assumes "client_names st (clients st ! nat i) = Some u" "u \<noteq> []"
    and "r" "clients st ! nat i \<noteq> - 1"
  shows "on_disconnect r i st = None"
  using assms by (simp add: on_disconnect_def names_index_Some Let_def)

lemma on_disconnect_None:
  "on_disconnect r i st = None \<longleftrightarrow>
     r \<and> clients st ! nat i \<noteq> - 1 \<and>
     (case client_names st (clients st ! nat i) of None \<Rightarrow> False | Some u \<Rightarrow> u \<noteq> [])"
proof (cases "client_names st (clients st ! nat i)")
  case None
  then show ?thesis by (simp add: on_disconnect_absent)
next
  case (Some u)
  show ?thesis
  proof (cases "u = []")
    case True
    with Some show ?thesis by (simp add: on_disconnect_empty)
  next
    case False
    with Some show ?thesis
      by (cases "r \<and> clients st ! nat i \<noteq> - 1")
         (simp_all add: on_disconnect_sigpipe on_disconnect_named del: not_None_eq)
  qed
qed

lemma on_message_first:
  assumes "client_names st c = None"
  shows "on_message c m st =
     st\<lparr>client_names := (client_names st)(c \<mapsto> m),
        trace := trace st @
          [Names_assign c m, Cout [S m, S '' has joined the chat!''],
           Call_broadcast (m @ '' has joined the chat!'') c] @
          map (\<lambda>d. Send d (m @ '' has joined the chat!''))
            (filter (\<lambda>d. d \<noteq> c) (clients st))\<rparr>"
  using assms
  by (simp add: on_message_def Let_def names_assign_def emit_def broadcast_def)

lemma on_message_regular:
  assumes "client_names st c = Some u"
  shows "on_message c m st =
     st\<lparr>trace := trace st @
          [Cout [S u, S '': '', S m], Call_broadcast (u @ '': '' @ m) c] @
          map (\<lambda>d. Send d (u @ '': '' @ m)) (filter (\<lambda>d. d \<noteq> c) (clients st))\<rparr>"
  using assms
  by (simp add: on_message_def Let_def names_index_Some emit_def broadcast_def)

text \<open>What a disconnection that returns has done.\<close>

lemma on_disconnect_Some:
  assumes "on_disconnect r i st = Some (i', st')"
  shows "i' = i - 1"
    and "clients st' = take (nat i) (clients st) @ drop (Suc (nat i)) (clients st)"
    and "client_names st' = (client_names st)(clients st ! nat i := None)"
    and "\<exists>es. trace st' = trace st @ es \<and> visits es = []"
proof -
  have "i' = i - 1 \<and>
        clients st' = take (nat i) (clients st) @ drop (Suc (nat i)) (clients st) \<and>
        client_names st' = (client_names st)(clients st ! nat i := None) \<and>
        (\<exists>es. trace st' = trace st @ es \<and> visits es = [])"
  proof (cases "client_names st (clients st ! nat i)")
    case None
    with assms show ?thesis by (auto simp: on_disconnect_absent)
  next
    case (Some u)
    show ?thesis
    proof (cases "u = []")
      case True
      with Some assms show ?thesis by (auto simp: on_disconnect_empty)
    next
      case False
      have "\<not> (r \<and> clients st ! nat i \<noteq> - 1)"
      proof
        assume "r \<and> clients st ! nat i \<noteq> - 1"
        with Some False have "on_disconnect r i st = None"
          by (simp add: on_disconnect_sigpipe)
        with assms show False by simp
      qed
      from on_disconnect_named [OF Some False this] assms show ?thesis by auto
    qed
  qed
  then show "i' = i - 1"
    and "clients st' = take (nat i) (clients st) @ drop (Suc (nat i)) (clients st)"
    and "client_names st' = (client_names st)(clients st ! nat i := None)"
    and "\<exists>es. trace st' = trace st @ es \<and> visits es = []"
    by blast+
qed

lemma on_message_names:
  "client_names (on_message c m st) =
     (if client_names st c = None then (client_names st)(c \<mapsto> m) else client_names st)"
  by (cases "client_names st c") (simp_all add: on_message_first on_message_regular)

subsection \<open>The client loop and the invariant\<close>

lemma registry_ok_initial: "registry_ok initial"
  by (simp add: registry_ok_def initial_def)

lemma registry_ok_emit [simp]: "registry_ok (emit ev st) = registry_ok st"
  by (simp add: registry_ok_def)

lemma registry_ok_accept_client:
  "registry_ok st \<Longrightarrow> 0 \<le> fd \<Longrightarrow> fd \<notin> set (clients st) \<Longrightarrow> registry_ok (accept_client fd st)"
  by (auto simp: registry_ok_def accept_client_def Let_def)

lemma registry_ok_on_disconnect:
  assumes "registry_ok st" "0 \<le> i" "i < int (length (clients st))"
    and "on_disconnect r i st = Some (i', st')"
  shows "registry_ok st'"
proof -
  from assms have d: "distinct (clients st)" and n: "nat i < length (clients st)"
    by (simp_all add: registry_ok_def)
  have "set (take (nat i) (clients st) @ drop (Suc (nat i)) (clients st)) \<subseteq> set (clients st)"
    using set_erase_nth [OF d n] by auto
  with assms(1) show ?thesis
    using set_erase_nth [OF d n] distinct_erase_nth [OF d, of "nat i"]
    unfolding registry_ok_def on_disconnect_Some(2,3) [OF assms(4)]
    by (auto simp del: set_append distinct_append)
qed

lemma registry_ok_on_message:
  "registry_ok st \<Longrightarrow> c \<in> set (clients st) \<Longrightarrow> registry_ok (on_message c m st)"
  by (auto simp: registry_ok_def on_message_names)

lemma on_message_trace:
  "\<exists>es. trace (on_message c m st) = trace st @ es \<and> visits es = []"
  by (cases "client_names st c") (simp_all add: on_message_first on_message_regular)

lemma client_step_idle:
  "clients st ! nat i \<notin> set read_fds \<Longrightarrow>
   client_step e read_fds i st = Some (i, emit (Visit (clients st ! nat i)) st)"
  by (simp add: client_step_def Let_def)

lemma client_step_disconnect:
  "disconnects e read_fds (clients st ! nat i) \<Longrightarrow>
   client_step e read_fds i st =
     on_disconnect (clients st ! nat i \<in> set (reset e)) i (emit (Visit (clients st ! nat i)) st)"
  by (cases "rd e (clients st ! nat i)")
     (simp add: client_step_def Let_def disconnects_def read_event_def)

lemma client_step_message:
  "clients st ! nat i \<in> set read_fds \<Longrightarrow> 0 < fst (rd e (clients st ! nat i)) \<Longrightarrow>
   client_step e read_fds i st =
     map_option (\<lambda>m. (i, on_message (clients st ! nat i) m (emit (Visit (clients st ! nat i)) st)))
       (std_string (fill_buffer (snd (rd e (clients st ! nat i)))))"
  by (cases "rd e (clients st ! nat i)")
     (simp add: client_step_def Let_def read_event_def split: option.splits)

text \<open>What one execution of the loop body does, whenever it returns.\<close>

lemma client_step_effect:
  assumes "0 \<le> i" "i < int (length (clients st))"
    and "client_step e read_fds i st = Some (i', st')"
  shows "(\<exists>es. trace st' = trace st @ es \<and> visits es = [clients st ! nat i]) \<and>
         (if disconnects e read_fds (clients st ! nat i)
          then i' = i - 1 \<and>
               clients st' = take (nat i) (clients st) @ drop (Suc (nat i)) (clients st) \<and>
               client_names st' (clients st ! nat i) = None
          else i' = i \<and> clients st' = clients st) \<and>
         (\<forall>k. k \<noteq> clients st ! nat i \<longrightarrow> client_names st' k = client_names st k) \<and>
         (registry_ok st \<longrightarrow> registry_ok st')"
proof -
  let ?c = "clients st ! nat i"
  let ?st = "emit (Visit ?c) st"
  from assms(1,2) have mem: "?c \<in> set (clients st)" by simp
  consider (idle) "?c \<notin> set read_fds"
    | (gone) "disconnects e read_fds ?c"
    | (msg) "?c \<in> set read_fds" "0 < fst (rd e ?c)"
    unfolding disconnects_def by atomize_elim auto
  then show ?thesis
  proof cases
    case idle
    with assms(3) show ?thesis
      by (auto simp: client_step_idle disconnects_def)
  next
    case gone
    with assms(3) have s: "on_disconnect (?c \<in> set (reset e)) i ?st = Some (i', st')"
      by (simp add: client_step_disconnect)
    note d = on_disconnect_Some [OF s]
    from d(4) have "\<exists>es. trace st' = trace st @ es \<and> visits es = [?c]" by auto
    moreover have "registry_ok st \<longrightarrow> registry_ok st'"
      using registry_ok_on_disconnect [OF _ _ _ s] assms(1,2) by simp
    ultimately show ?thesis using gone d(1,2,3) by simp
  next
    case msg
    with assms(3) obtain m where st': "st' = on_message ?c m ?st" and i': "i' = i"
      by (auto simp: client_step_message)
    from on_message_trace [of ?c m ?st] st'
    have "\<exists>es. trace st' = trace st @ es \<and> visits es = [?c]" by auto
    moreover have "registry_ok st \<longrightarrow> registry_ok st'"
      using registry_ok_on_message [of ?st ?c m] mem st' by simp
    ultimately show ?thesis using msg st' i' by (simp add: disconnects_def on_message_names)
  qed
qed

lemma client_step_returns:
  assumes "\<not> overruns e read_fds (clients st ! nat i)"
    and "\<not> sigpipes e read_fds st (clients st ! nat i)"
  shows "\<exists>i' st'. client_step e read_fds i st = Some (i', st')"
proof -
  let ?c = "clients st ! nat i"
  consider (idle) "?c \<notin> set read_fds"
    | (gone) "disconnects e read_fds ?c"
    | (msg) "?c \<in> set read_fds" "0 < fst (rd e ?c)"
    unfolding disconnects_def by atomize_elim auto
  then show ?thesis
  proof cases
    case idle
    then show ?thesis by (simp add: client_step_idle)
  next
    case gone
    with assms(2)
    have "on_disconnect (?c \<in> set (reset e)) i (emit (Visit ?c) st) \<noteq> None"
      unfolding on_disconnect_None by (auto simp: sigpipes_def)
    with gone show ?thesis by (auto simp: client_step_disconnect)
  next
    case msg
    with assms obtain m where "std_string (fill_buffer (snd (rd e ?c))) = Some m"
      by (auto simp: overruns_def)
    with msg show ?thesis by (simp add: client_step_message)
  qed
qed

text \<open>
  The whole loop from index \<open>i\<close>, when no read overruns the buffer and no departure
  notice meets a reset connection: it returns, the body ran once for each element
  from position \<open>i\<close> on, in order, and the elements that disconnected are the ones
  erased.
\<close>

lemma client_loop_run:
  assumes "0 \<le> i"
    and "\<forall>c \<in> set (clients st). \<not> overruns e read_fds c \<and> \<not> sigpipes e read_fds st c"
  shows "\<exists>st' es. client_loop e read_fds i st = Some st' \<and> trace st' = trace st @ es \<and>
           visits es = drop (nat i) (clients st) \<and>
           clients st' = take (nat i) (clients st) @
             filter (\<lambda>c. \<not> disconnects e read_fds c) (drop (nat i) (clients st)) \<and>
           (registry_ok st \<longrightarrow> registry_ok st')"
  using assms
proof (induction e read_fds i st rule: client_loop.induct)
  case (1 e read_fds i st)
  let ?cs = "clients st" and ?n = "nat i"
  let ?keep = "\<lambda>c. \<not> disconnects e read_fds c"
  show ?case
  proof (cases "i < int (length ?cs)")
    case False
    then have "client_loop e read_fds i st = Some st" by (simp add: client_loop.simps)
    moreover from False have "drop ?n ?cs = []" "take ?n ?cs = ?cs" by simp_all
    ultimately show ?thesis by simp
  next
    case True
    with \<open>0 \<le> i\<close> have n: "?n < length ?cs" and range: "0 \<le> i \<and> i < int (length ?cs)"
      by simp_all
    from n have mem: "?cs ! ?n \<in> set ?cs" by simp
    with "1.prems"(2) have "\<not> overruns e read_fds (?cs ! ?n)"
      "\<not> sigpipes e read_fds st (?cs ! ?n)" by blast+
    from client_step_returns [OF this]
    obtain i1 st1 where step: "client_step e read_fds i st = Some (i1, st1)" by blast
    from client_step_effect [OF \<open>0 \<le> i\<close> True step]
    obtain es1 where es1: "trace st1 = trace st @ es1" "visits es1 = [?cs ! ?n]"
      and shape: "if disconnects e read_fds (?cs ! ?n)
                  then i1 = i - 1 \<and> clients st1 = take ?n ?cs @ drop (Suc ?n) ?cs \<and>
                       client_names st1 (?cs ! ?n) = None
                  else i1 = i \<and> clients st1 = ?cs"
      and others: "\<forall>k. k \<noteq> ?cs ! ?n \<longrightarrow> client_names st1 k = client_names st k"
      and ok1: "registry_ok st \<longrightarrow> registry_ok st1"
      by blast
    from shape \<open>0 \<le> i\<close> have i1: "0 \<le> i1 + 1" by (auto split: if_splits)
    have "set (take ?n ?cs @ drop (Suc ?n) ?cs) \<subseteq> set ?cs"
      using set_take_subset [of ?n ?cs] set_drop_subset [of "Suc ?n" ?cs] by auto
    with shape have sub: "set (clients st1) \<subseteq> set ?cs" by (auto split: if_splits)
    have no1: "\<forall>c \<in> set (clients st1). \<not> overruns e read_fds c \<and> \<not> sigpipes e read_fds st1 c"
    proof
      fix c assume "c \<in> set (clients st1)"
      with sub "1.prems"(2) have o: "\<not> overruns e read_fds c" and p: "\<not> sigpipes e read_fds st c"
        by blast+
      have "\<not> sigpipes e read_fds st1 c"
      proof (cases "c = ?cs ! ?n")
        case True
        with shape show ?thesis by (auto simp: sigpipes_def split: if_splits)
      next
        case False
        with others have "client_names st1 c = client_names st c" by simp
        with p show ?thesis by (simp add: sigpipes_def)
      qed
      with o show "\<not> overruns e read_fds c \<and> \<not> sigpipes e read_fds st1 c" ..
    qed
    from "1.IH" [OF range step refl i1 no1]
    obtain st' es2 where loop: "client_loop e read_fds (i1 + 1) st1 = Some st'"
      and es2: "trace st' = trace st1 @ es2" "visits es2 = drop (nat (i1 + 1)) (clients st1)"
      and cl: "clients st' = take (nat (i1 + 1)) (clients st1) @
                 filter ?keep (drop (nat (i1 + 1)) (clients st1))"
      and ok2: "registry_ok st1 \<longrightarrow> registry_ok st'"
      by blast
    from range step loop have res: "client_loop e read_fds i st = Some st'"
      by (subst client_loop.simps) simp
    from es1 es2 have tr: "trace st' = trace st @ (es1 @ es2)" by simp
    have split: "drop ?n ?cs = ?cs ! ?n # drop (Suc ?n) ?cs"
      using n by (simp add: Cons_nth_drop_Suc)
    have "visits (es1 @ es2) = drop ?n ?cs \<and>
          clients st' = take ?n ?cs @ filter ?keep (drop ?n ?cs)"
    proof (cases "disconnects e read_fds (?cs ! ?n)")
      case True
      with shape \<open>0 \<le> i\<close> have a: "nat (i1 + 1) = ?n"
        and b: "clients st1 = take ?n ?cs @ drop (Suc ?n) ?cs" by simp_all
      from n have c: "drop ?n (take ?n ?cs @ drop (Suc ?n) ?cs) = drop (Suc ?n) ?cs"
        and d: "take ?n (take ?n ?cs @ drop (Suc ?n) ?cs) = take ?n ?cs" by simp_all
      from es1 es2 cl True show ?thesis
        unfolding a b c d split by simp
    next
      case False
      with shape \<open>0 \<le> i\<close> have a: "nat (i1 + 1) = Suc ?n" and b: "clients st1 = ?cs"
        by simp_all
      from n have c: "take (Suc ?n) ?cs = take ?n ?cs @ [?cs ! ?n]"
        by (simp add: take_Suc_conv_app_nth)
      from es1 es2 cl False show ?thesis
        unfolding a b c split by simp
    qed
    with res tr ok1 ok2 show ?thesis by blast
  qed
qed

lemma registry_ok_client_loop:
  "client_loop e read_fds i st = Some st' \<Longrightarrow> registry_ok st \<Longrightarrow> registry_ok st'"
proof (induction e read_fds i st rule: client_loop.induct)
  case (1 e read_fds i st)
  show ?case
  proof (cases "0 \<le> i \<and> i < int (length (clients st))")
    case False
    with "1.prems" show ?thesis by (simp add: client_loop.simps)
  next
    case True
    with "1.prems"(1) obtain i1 st1 where step: "client_step e read_fds i st = Some (i1, st1)"
      and loop: "client_loop e read_fds (i1 + 1) st1 = Some st'"
      by (subst (asm) client_loop.simps) (auto split: option.splits)
    from client_step_effect [OF _ _ step] True "1.prems"(2) have "registry_ok st1" by blast
    from "1.IH" [OF True step refl loop this] show ?thesis .
  qed
qed

text \<open>
  The loop invariant: it holds at the start and every iteration of the main loop that
  returns keeps it, provided \<^verbatim>\<open>accept\<close> answers with a descriptor that is not tracked
  (tracked descriptors are open, and \<^verbatim>\<open>accept\<close> returns one that was not).
\<close>

lemma registry_ok_main_iteration:
  assumes "registry_ok st" "new_client e \<notin> set (clients st)"
    and "main_iteration e st = Some st'"
  shows "registry_ok st'"
proof -
  consider (err) "st' = emit (Cerr [S ''Select error'']) st"
    | (fail) "st' = emit (Cerr [S ''Accept failed!'']) st"
    | (acc) "0 \<le> new_client e"
        "client_loop e (select_fds e st) 0 (accept_client (new_client e) st) = Some st'"
    | (scan) "client_loop e (select_fds e st) 0 st = Some st'"
    using assms(3) unfolding main_iteration_def Let_def
    by atomize_elim (auto split: if_splits)
  then show ?thesis
  proof cases
    case acc
    from registry_ok_accept_client [OF assms(1) acc(1) assms(2)] acc(2)
    show ?thesis by (rule registry_ok_client_loop [rotated])
  next
    case scan
    then show ?thesis using assms(1) by (rule registry_ok_client_loop)
  qed (use assms(1) in simp_all)
qed

lemma count_list_distinct:
  "distinct xs \<Longrightarrow> count_list xs x = (if x \<in> set xs then 1 else 0)"
  by (induction xs) auto

subsection \<open>Running the loop\<close>

text \<open>
  The scenario of the specification: A connects and sends \<open>alice\<close>, B connects and
  sends \<open>bob\<close>, A sends \<open>hi\<close>, B disconnects. The sends are the two prompts, the join
  notice of \<open>bob\<close> to A, the chat line to B, and the departure notice to both tracked
  descriptors (B's own is still tracked when \<^verbatim>\<open>broadcast\<close> runs). The example states
  are reached from the initial state in the same way.
\<close>

lemma std_string_text:
  "std_string (fill_buffer ''alice'') = Some ''alice''"
  "std_string (fill_buffer ''bob'') = Some ''bob''"
  "std_string (fill_buffer ''hi'') = Some ''hi''"
  "std_string (fill_buffer [NUL]) = Some []"
  by (simp_all add: std_string_fill_buffer NUL_def)

lemmas run_simps =
  main_iteration_def select_fds_def connects_def delivers_def resets_def initial_def
  accept_client_def Let_def client_loop.simps client_step_def read_event_def
  on_message_def on_disconnect_def names_index_def names_assign_def names_erase_def
  clients_erase_def clients_push_back_def broadcast_def emit_def std_string_text

lemma scenario:
  "map_option (\<lambda>st. (clients st, client_names st 4, client_names st 5, filter is_send (trace st)))
     (main_loop [connects 4, delivers 4 5 ''alice'', connects 5, delivers 5 3 ''bob'',
                 delivers 4 2 ''hi'', delivers 5 0 []] initial) =
   Some ([4], Some ''alice'', None,
         [Send 4 ''Enter your username: '', Send 5 ''Enter your username: '',
          Send 4 ''bob has joined the chat!'', Send 5 ''alice: hi'',
          Send 4 ''bob has left the chat'', Send 5 ''bob has left the chat''])"
  by (simp add: run_simps)

lemma room_reached:
  "map_option (\<lambda>st. (clients st, client_names st 4, client_names st 5, client_names st 6))
     (main_loop [connects 4, delivers 4 5 ''alice'', connects 5, delivers 5 3 ''bob'',
                 connects 6] initial) =
   Some (clients room, client_names room 4, client_names room 5, client_names room 6)"
  by (simp add: run_simps room_def)

lemma twins_reached:
  "map_option (\<lambda>st. (clients st, client_names st 4, client_names st 5))
     (main_loop [connects 4, connects 5, delivers 4 3 ''bob'', delivers 5 3 ''bob''] initial) =
   Some (clients twins, client_names twins 4, client_names twins 5)"
  by (simp add: run_simps twins_def)

lemma nameless_reached:
  "map_option (\<lambda>st. (clients st, client_names st 4, client_names st 5))
     (main_loop [connects 4, delivers 4 1 [NUL], connects 5, delivers 5 3 ''bob''] initial) =
   Some (clients nameless, client_names nameless 4, client_names nameless 5)"
  by (simp add: run_simps nameless_def)

text \<open>
  A reset connection: when its user has a name, the process ends in the broadcast of
  the departure notice and the loop does not go on; without a name nothing is sent
  and the connection is removed.
\<close>

lemma reset_named:
  "main_loop [connects 4, delivers 4 5 ''alice'', connects 5, resets 4] initial = None"
  by (simp add: run_simps)

lemma reset_unnamed:
  "map_option (\<lambda>st. (clients st, filter is_send (trace st)))
     (main_loop [connects 4, connects 5, resets 4] initial) =
   Some ([5], [Send 4 ''Enter your username: '', Send 5 ''Enter your username: ''])"
  by (simp add: run_simps)

section \<open>The Broadcast Unit\<close>

text \<open>
  Claim C2. For every message and every excluded identity, \<^verbatim>\<open>broadcast\<close> changes
  neither container and performs, after its call mark, exactly the sends
  \<open>Send c message\<close> for the tracked connections \<open>c\<close> different from the excluded one,
  in the order of the vector: each such connection is sent the message exactly once,
  the excluded one and untracked ones never. With the sentinel \<open>-1\<close> every tracked
  connection is sent the message, because tracked descriptors are non-negative.
\<close>

theorem broadcast_contract:
  assumes "registry_ok st"
  shows "clients (broadcast message excluded st) = clients st \<and>
         client_names (broadcast message excluded st) = client_names st \<and>
         emitted st (broadcast message excluded st) =
           Call_broadcast message excluded #
           map (\<lambda>c. Send c message) (filter (\<lambda>c. c \<noteq> excluded) (clients st)) \<and>
         (\<forall>c. count_list (emitted st (broadcast message excluded st)) (Send c message) =
               (if c \<in> set (clients st) \<and> c \<noteq> excluded then 1 else 0)) \<and>
         emitted st (broadcast message (- 1) st) =
           Call_broadcast message (- 1) # map (\<lambda>c. Send c message) (clients st)"
proof -
  from assms have d: "distinct (clients st)" and n: "\<forall>c \<in> set (clients st). 0 \<le> c"
    by (simp_all add: registry_ok_def)
  from n have "filter (\<lambda>c. c \<noteq> - 1) (clients st) = clients st"
    by (auto simp: filter_id_conv)
  with d show ?thesis by (simp add: count_sends)
qed

theorem broadcast_contract_witness:
  "registry_ok \<lparr>clients = [4, 5, 6], client_names = [4 \<mapsto> ''alice''], trace = []\<rparr> \<and>
   emitted \<lparr>clients = [4, 5, 6], client_names = [4 \<mapsto> ''alice''], trace = []\<rparr>
     (broadcast ''hi'' 5 \<lparr>clients = [4, 5, 6], client_names = [4 \<mapsto> ''alice''], trace = []\<rparr>)
     = [Call_broadcast ''hi'' 5, Send 4 ''hi'', Send 6 ''hi''] \<and>
   emitted \<lparr>clients = [4, 5, 6], client_names = [4 \<mapsto> ''alice''], trace = []\<rparr>
     (broadcast ''hi'' (- 1) \<lparr>clients = [4, 5, 6], client_names = [4 \<mapsto> ''alice''], trace = []\<rparr>)
     = [Call_broadcast ''hi'' (- 1), Send 4 ''hi'', Send 5 ''hi'', Send 6 ''hi'']"
  using broadcast_contract
    [of "\<lparr>clients = [4, 5, 6], client_names = [4 \<mapsto> ''alice''], trace = []\<rparr>" "''hi''" 5]
  by (simp add: registry_ok_def)

section \<open>The Session Lifecycle Handler\<close>

text \<open>
  The theorems of this section are about one read event:
  \<open>read_event i valread data peer_reset st\<close> is what lines 153-199 do when \<^verbatim>\<open>read\<close> on
  \<open>clients[i]\<close> returned \<open>valread\<close> and delivered \<open>data\<close>, \<open>peer_reset\<close> telling whether
  the read left the connection reset by the peer. The message the code works with is
  \<^verbatim>\<open>std::string message(buffer)\<close>, the bytes of the chunk before its first NUL.
\<close>

subsection \<open>Regular messages\<close>

text \<open>
  Claim C1, as the code has it. When connection \<open>c\<close> has the UsernameMap entry \<open>u\<close>
  and a read from it delivers a chunk, the message \<open>M\<close> is the bytes of the chunk
  before its first NUL (the whole chunk when it has no NUL and is shorter than the
  buffer). The handler changes neither container and calls \<^verbatim>\<open>broadcast\<close> once, with
  the line \<open>u @ '': '' @ M\<close> and \<open>c\<close> excluded: the line is sent exactly once to every
  other tracked connection and never to \<open>c\<close>.
\<close>

theorem regular_message_broadcast:
  assumes ok: "registry_ok st" and i: "0 \<le> i" "i < int (length (clients st))"
    and c: "clients st ! nat i = c" and u: "client_names st c = Some u"
    and v: "0 < valread" and M: "std_string (fill_buffer data) = Some M"
  shows "\<exists>st'. read_event i valread data peer_reset st = Some (i, st') \<and>
           M = takeWhile (\<lambda>b. b \<noteq> NUL) (take 1024 data) \<and>
           (NUL \<notin> set data \<and> length data < 1024 \<longrightarrow> M = data) \<and>
           clients st' = clients st \<and> client_names st' = client_names st \<and>
           emitted st st' =
             [Cout [S u, S '': '', S M], Call_broadcast (u @ '': '' @ M) c] @
             map (\<lambda>d. Send d (u @ '': '' @ M)) (filter (\<lambda>d. d \<noteq> c) (clients st)) \<and>
           (\<forall>d. count_list (emitted st st') (Send d (u @ '': '' @ M)) =
                  (if d \<in> set (clients st) \<and> d \<noteq> c then 1 else 0))"
proof -
  from ok have d: "distinct (clients st)" by (simp add: registry_ok_def)
  from M have n: "M = takeWhile (\<lambda>b. b \<noteq> NUL) (take 1024 data)"
    by (simp add: std_string_fill_buffer split: if_splits)
  have "M = data" if "NUL \<notin> set data" "length data < 1024"
    using that n by (auto simp: takeWhile_eq_all_conv)
  moreover from v M c
  have "read_event i valread data peer_reset st = Some (i, on_message c M st)"
    by (simp add: read_event_def)
  ultimately show ?thesis
    using d n by (simp add: on_message_regular [OF u] count_sends)
qed

theorem regular_message_broadcast_witness:
  "registry_ok room \<and> std_string (fill_buffer ''hi'') = Some ''hi'' \<and>
   map_option (\<lambda>(i, st'). (i, emitted room st')) (read_event 0 2 ''hi'' False room) =
     Some (0, [Cout [S ''alice'', S '': '', S ''hi''], Call_broadcast ''alice: hi'' 4,
               Send 5 ''alice: hi'', Send 6 ''alice: hi''])"
proof -
  have ok: "registry_ok room" by (simp add: room_def registry_ok_def)
  have M: "std_string (fill_buffer ''hi'') = Some ''hi''"
    by (simp add: std_string_fill_buffer NUL_def)
  from regular_message_broadcast [OF ok _ _ _ _ _ M, of 0 4 "''alice''" 2 False]
  show ?thesis using ok M by (auto simp: room_def)
qed

text \<open>
  The claim as it is written fails on a chunk with a NUL byte inside: when connection
  4 sends the three bytes \<open>a\<close>, NUL, \<open>b\<close>, the line sent to the others is \<open>alice: a\<close>,
  and the line made of the username and the received bytes is sent to nobody.
\<close>

theorem regular_message_truncated_counterexample:
  "map_option (\<lambda>(i, st'). (filter is_send (emitted room st'),
       count_list (emitted room st') (Send 5 (''alice: '' @ [CHR ''a'', NUL, CHR ''b''])),
       count_list (emitted room st') (Send 6 (''alice: '' @ [CHR ''a'', NUL, CHR ''b'']))))
     (read_event 0 3 [CHR ''a'', NUL, CHR ''b''] False room) =
   Some ([Send 5 ''alice: a'', Send 6 ''alice: a''], 0, 0)"
proof -
  have "std_string (fill_buffer [CHR ''a'', NUL, CHR ''b'']) = Some ''a''"
    by (simp add: std_string_fill_buffer NUL_def)
  then show ?thesis
    by (simp add: read_event_def room_def on_message_regular [of _ _ "''alice''"])
qed

subsection \<open>First messages\<close>

text \<open>
  Claim C3, as the code has it. When connection \<open>c\<close> has no UsernameMap entry and a
  read from it delivers a chunk, the bytes of the chunk before its first NUL are
  recorded as the username of \<open>c\<close> (the whole chunk when it has no NUL and is shorter
  than the buffer), and the join notice is broadcast once with \<open>c\<close> excluded: every
  other tracked connection is sent it exactly once and \<open>c\<close> never.
\<close>

theorem first_message_join:
  assumes ok: "registry_ok st" and i: "0 \<le> i" "i < int (length (clients st))"
    and c: "clients st ! nat i = c" and u: "client_names st c = None"
    and v: "0 < valread" and M: "std_string (fill_buffer data) = Some name"
  shows "\<exists>st'. read_event i valread data peer_reset st = Some (i, st') \<and>
           name = takeWhile (\<lambda>b. b \<noteq> NUL) (take 1024 data) \<and>
           (NUL \<notin> set data \<and> length data < 1024 \<longrightarrow> name = data) \<and>
           clients st' = clients st \<and> client_names st' = (client_names st)(c \<mapsto> name) \<and>
           emitted st st' =
             [Names_assign c name, Cout [S name, S '' has joined the chat!''],
              Call_broadcast (name @ '' has joined the chat!'') c] @
             map (\<lambda>d. Send d (name @ '' has joined the chat!''))
               (filter (\<lambda>d. d \<noteq> c) (clients st)) \<and>
           (\<forall>d. count_list (emitted st st') (Send d (name @ '' has joined the chat!'')) =
                  (if d \<in> set (clients st) \<and> d \<noteq> c then 1 else 0))"
proof -
  from ok have d: "distinct (clients st)" by (simp add: registry_ok_def)
  from M have n: "name = takeWhile (\<lambda>b. b \<noteq> NUL) (take 1024 data)"
    by (simp add: std_string_fill_buffer split: if_splits)
  have "name = data" if "NUL \<notin> set data" "length data < 1024"
    using that n by (auto simp: takeWhile_eq_all_conv)
  moreover from v M c
  have "read_event i valread data peer_reset st = Some (i, on_message c name st)"
    by (simp add: read_event_def)
  ultimately show ?thesis
    using d n by (simp add: on_message_first [OF u] count_sends)
qed

theorem first_message_join_witness:
  "registry_ok room \<and> std_string (fill_buffer ''carol'') = Some ''carol'' \<and>
   map_option (\<lambda>(i, st'). (i, client_names st' 6, emitted room st'))
     (read_event 2 5 ''carol'' False room) =
     Some (2, Some ''carol'',
           [Names_assign 6 ''carol'', Cout [S ''carol'', S '' has joined the chat!''],
            Call_broadcast ''carol has joined the chat!'' 6,
            Send 4 ''carol has joined the chat!'', Send 5 ''carol has joined the chat!''])"
proof -
  have ok: "registry_ok room" by (simp add: room_def registry_ok_def)
  have M: "std_string (fill_buffer ''carol'') = Some ''carol''"
    by (simp add: std_string_fill_buffer NUL_def)
  from first_message_join [OF ok _ _ _ _ _ M, of 2 6 5 False]
  show ?thesis using ok M by (auto simp: room_def)
qed

text \<open>
  The claim as it is written fails on a chunk with a NUL byte inside: of the three
  bytes \<open>a\<close>, NUL, \<open>b\<close> only \<open>a\<close> is recorded.
\<close>

theorem first_message_verbatim_counterexample:
  "map_option (\<lambda>(i, st'). client_names st' 6)
     (read_event 2 3 [CHR ''a'', NUL, CHR ''b''] False room) = Some (Some ''a'') \<and>
   ''a'' \<noteq> [CHR ''a'', NUL, CHR ''b'']"
proof -
  have "std_string (fill_buffer [CHR ''a'', NUL, CHR ''b'']) = Some ''a''"
    by (simp add: std_string_fill_buffer NUL_def)
  then show ?thesis
    by (simp add: read_event_def on_message_names room_def)
qed

subsection \<open>Disconnections\<close>

text \<open>
  Claim C4, as the code has it. When connection \<open>c\<close> has a non-empty username \<open>u\<close>,
  a read from it returns zero or less and its peer has not reset the connection, the
  handler logs the departure, calls \<^verbatim>\<open>broadcast\<close> once with the departure notice and
  the sentinel \<open>-1\<close>, which sends the notice to every tracked connection, \<open>c\<close> itself
  included, then closes \<open>c\<close>, erases it from \<^verbatim>\<open>clients\<close> and erases its entry, in
  this order. Afterwards \<open>c\<close> is not tracked and has no entry; every other entry is
  unchanged, so \<open>u\<close> stays with the other connections that chose the same username.
  When the peer has reset the connection, the send of the notice to \<open>c\<close> raises
  SIGPIPE and the handler does not return (\<open>on_disconnect_sigpipe\<close>); the theorem says
  nothing about that case.
\<close>

theorem departure_notice:
  assumes ok: "registry_ok st" and i: "0 \<le> i" "i < int (length (clients st))"
    and c: "clients st ! nat i = c" and u: "client_names st c = Some u" "u \<noteq> []"
    and v: "valread \<le> 0" and r: "\<not> peer_reset"
  shows "\<exists>st'. read_event i valread data peer_reset st = Some (i - 1, st') \<and>
           emitted st st' =
             [Cout [S u, S '' disconnected''],
              Call_broadcast (u @ '' has left the chat'') (- 1)] @
             map (\<lambda>d. Send d (u @ '' has left the chat'')) (clients st) @
             [Close c, Clients_erase (nat i), Names_erase c] \<and>
           clients st' = take (nat i) (clients st) @ drop (Suc (nat i)) (clients st) \<and>
           set (clients st') = set (clients st) - {c} \<and>
           client_names st' = (client_names st)(c := None) \<and>
           {d. client_names st' d = Some u} = {d. client_names st d = Some u} - {c}"
proof -
  from ok have d: "distinct (clients st)" and n: "\<forall>c \<in> set (clients st). 0 \<le> c"
    by (simp_all add: registry_ok_def)
  from u c have u': "client_names st (clients st ! nat i) = Some u" by simp
  from i have "nat i < length (clients st)" by simp
  from set_erase_nth [OF d this] c
  have s: "set (take (nat i) (clients st) @ drop (Suc (nat i)) (clients st)) = set (clients st) - {c}"
    by simp
  from r have r': "\<not> (peer_reset \<and> clients st ! nat i \<noteq> - 1)" by simp
  from v have "read_event i valread data peer_reset st = on_disconnect peer_reset i st"
    by (simp add: read_event_def)
  then show ?thesis
    using s c by (auto simp: on_disconnect_named [OF u' u(2) r'] nonneg_filter [OF n])
qed

theorem departure_notice_witness:
  "registry_ok room \<and>
   map_option (\<lambda>(i, st'). (i, clients st', client_names st' 5, emitted room st'))
     (read_event 1 0 [] False room) =
     Some (0, [4, 6], None,
           [Cout [S ''bob'', S '' disconnected''],
            Call_broadcast ''bob has left the chat'' (- 1),
            Send 4 ''bob has left the chat'', Send 5 ''bob has left the chat'',
            Send 6 ''bob has left the chat'',
            Close 5, Clients_erase 1, Names_erase 5])"
proof -
  have ok: "registry_ok room" by (simp add: room_def registry_ok_def)
  from departure_notice [OF ok, of 1 5 "''bob''" 0 False "[]"]
  show ?thesis using ok by (auto simp: room_def)
qed

text \<open>
  The claim as it is written fails when two connections chose the same username:
  after connection 4 has left, \<open>bob\<close> is still the username of the tracked
  connection 5, both in a run of the main loop from the initial state and for the
  single event on the state that run reaches.
\<close>

theorem departure_same_username_counterexample:
  "map_option (\<lambda>st. (clients st, client_names st 5))
     (main_loop [connects 4, connects 5, delivers 4 3 ''bob'', delivers 5 3 ''bob'',
                 delivers 4 0 []] initial) = Some ([5], Some ''bob'') \<and>
   map_option (\<lambda>(i, st'). (clients st', client_names st' 5))
     (read_event 0 0 [] False twins) = Some ([5], Some ''bob'')"
  by (simp add: run_simps twins_def)

text \<open>
  Claim C5. When connection \<open>c\<close> has no UsernameMap entry and a read from it returns
  zero or less, the handler logs the bare descriptor, calls neither \<^verbatim>\<open>broadcast\<close> nor
  \<^verbatim>\<open>send\<close>, closes \<open>c\<close> and erases it from \<^verbatim>\<open>clients\<close>. The lookup of line 155 inserts
  an empty entry for \<open>c\<close>, which line 170 erases: afterwards the map is what it was,
  \<open>c\<close> has no entry, and a connection accepted later with the same descriptor starts
  without one.
\<close>

theorem disconnect_before_username:
  assumes ok: "registry_ok st" and i: "0 \<le> i" "i < int (length (clients st))"
    and c: "clients st ! nat i = c" and u: "client_names st c = None"
    and v: "valread \<le> 0"
  shows "\<exists>st'. read_event i valread data peer_reset st = Some (i - 1, st') \<and>
           emitted st st' =
             [Names_default_insert c, Cout [S ''Client (socket '', N c, S '')''],
              Close c, Clients_erase (nat i), Names_erase c] \<and>
           filter broadcast_call (emitted st st') = [] \<and>
           filter is_send (emitted st st') = [] \<and>
           clients st' = take (nat i) (clients st) @ drop (Suc (nat i)) (clients st) \<and>
           set (clients st') = set (clients st) - {c} \<and>
           client_names st' = client_names st \<and>
           client_names st' c = None \<and>
           client_names (accept_client c st') c = None"
proof -
  from ok have d: "distinct (clients st)" by (simp add: registry_ok_def)
  from u c have u': "client_names st (clients st ! nat i) = None" by simp
  from i have "nat i < length (clients st)" by simp
  from set_erase_nth [OF d this] c
  have s: "set (take (nat i) (clients st) @ drop (Suc (nat i)) (clients st)) = set (clients st) - {c}"
    by simp
  from u have e: "(client_names st)(c := None) = client_names st" by auto
  from v have "read_event i valread data peer_reset st = on_disconnect peer_reset i st"
    by (simp add: read_event_def)
  then show ?thesis
    using s c u e by (simp add: on_disconnect_absent [OF u'] accept_client_def Let_def)
qed


theorem disconnect_before_username_witness:
  "registry_ok room \<and>
   map_option (\<lambda>(i, st'). (i, clients st', client_names st' 6, emitted room st'))
     (read_event 2 (- 1) [] True room) =
     Some (1, [4, 5], None,
           [Names_default_insert 6, Cout [S ''Client (socket '', N 6, S '')''],
            Close 6, Clients_erase 2, Names_erase 6])"
proof -
  have ok: "registry_ok room" by (simp add: room_def registry_ok_def)
  from disconnect_before_username [OF ok, of 2 6 "- 1" "[]" True]
  show ?thesis using ok by (auto simp: room_def)
qed

subsection \<open>Side effects of one read event\<close>

text \<open>
  Claim C7, as the code has it. One read event changes \<^verbatim>\<open>client_names\<close> at most once,
  except when a connection without an entry disconnects: there the lookup of line 155
  inserts an empty entry and line 170 erases it, two changes that leave the map as it
  was. The event changes \<^verbatim>\<open>clients\<close> exactly when the read returned zero or less, and
  then by the one erasure at the index of the connection; it calls \<^verbatim>\<open>broadcast\<close> at
  most once; and it leaves the entry of every other descriptor alone.
\<close>

theorem read_event_side_effects:
  assumes i: "0 \<le> i" "i < int (length (clients st))"
    and r: "read_event i valread data peer_reset st = Some (i', st')"
  shows "length (filter names_mutation (emitted st st')) =
           (if valread \<le> 0 then (if client_names st (clients st ! nat i) = None then 2 else 1)
            else (if client_names st (clients st ! nat i) = None then 1 else 0)) \<and>
         filter clients_mutation (emitted st st') =
           (if valread \<le> 0 then [Clients_erase (nat i)] else []) \<and>
         length (filter broadcast_call (emitted st st')) \<le> 1 \<and>
         (\<forall>k. k \<noteq> clients st ! nat i \<longrightarrow> client_names st' k = client_names st k)"
proof (cases "valread \<le> 0")
  case True
  with r have st': "on_disconnect peer_reset i st = Some (i', st')"
    by (simp add: read_event_def)
  show ?thesis
  proof (cases "client_names st (clients st ! nat i)")
    case None
    from st' True show ?thesis by (auto simp: on_disconnect_absent [OF None] None)
  next
    case (Some u)
    show ?thesis
    proof (cases "u = []")
      case True
      with Some have e: "client_names st (clients st ! nat i) = Some []" by simp
      from st' \<open>valread \<le> 0\<close> show ?thesis by (auto simp: on_disconnect_empty [OF e] e)
    next
      case False
      have "\<not> (peer_reset \<and> clients st ! nat i \<noteq> - 1)"
      proof
        assume "peer_reset \<and> clients st ! nat i \<noteq> - 1"
        with Some False have "on_disconnect peer_reset i st = None"
          by (simp add: on_disconnect_sigpipe)
        with st' show False by simp
      qed
      from on_disconnect_named [OF Some False this] st' \<open>valread \<le> 0\<close> show ?thesis
        by (auto simp: Some)
    qed
  qed
next
  case False
  with r obtain m where st': "st' = on_message (clients st ! nat i) m st"
    by (auto simp: read_event_def split: option.splits)
  show ?thesis
  proof (cases "client_names st (clients st ! nat i)")
    case None
    from st' False show ?thesis by (auto simp: on_message_first [OF None] None)
  next
    case (Some u)
    from st' False show ?thesis by (auto simp: on_message_regular [OF Some] Some)
  qed
qed

theorem read_event_side_effects_witness:
  "map_option (\<lambda>(i, st'). (filter names_mutation (emitted room st'),
                             filter clients_mutation (emitted room st'),
                             filter broadcast_call (emitted room st')))
     (read_event 1 0 [] False room) =
     Some ([Names_erase 5], [Clients_erase 1], [Call_broadcast ''bob has left the chat'' (- 1)])"
proof -
  have r: "read_event 1 0 [] False room = on_disconnect False 1 room"
    by (simp add: read_event_def)
  obtain i' st' where o: "on_disconnect False 1 room = Some (i', st')"
    by (simp add: room_def on_disconnect_named [of _ _ "''bob''"])
  have "0 \<le> (1::int)" "1 < int (length (clients room))" by (simp_all add: room_def)
  from read_event_side_effects [OF this r [unfolded o]]
  have "length (filter names_mutation (emitted room st')) = 1"
    by (simp add: room_def)
  moreover from o have "emitted room st' =
      [Cout [S ''bob'', S '' disconnected''], Call_broadcast ''bob has left the chat'' (- 1),
       Send 4 ''bob has left the chat'', Send 5 ''bob has left the chat'',
       Send 6 ''bob has left the chat'', Close 5, Clients_erase 1, Names_erase 5]"
    by (auto simp: room_def on_disconnect_named [of _ _ "''bob''"])
  ultimately show ?thesis using r o by simp
qed

text \<open>
  The claim as it is written fails when connection 6, which has no entry,
  disconnects: the map is changed twice.
\<close>

theorem two_names_mutations_counterexample:
  "map_option (\<lambda>(i, st'). filter names_mutation (emitted room st'))
     (read_event 2 0 [] False room) = Some [Names_default_insert 6, Names_erase 6]"
  by (simp add: read_event_def room_def on_disconnect_absent)

subsection \<open>Usernames are kept\<close>

text \<open>
  Claim C9. A read event on any tracked connection leaves an existing UsernameMap
  entry as it is, unless the event is the disconnection of the entry's own connection:
  then the entry is erased and the connection is no longer tracked.
\<close>

theorem username_never_overwritten:
  assumes ok: "registry_ok st" and i: "0 \<le> i" "i < int (length (clients st))"
    and k: "client_names st k = Some u"
    and r: "read_event i valread data peer_reset st = Some (i', st')"
  shows "client_names st' k = Some u \<or>
         (client_names st' k = None \<and> valread \<le> 0 \<and> k = clients st ! nat i \<and>
          k \<notin> set (clients st'))"
proof (cases "valread \<le> 0")
  case True
  with r have "on_disconnect peer_reset i st = Some (i', st')" by (simp add: read_event_def)
  note st' = on_disconnect_Some(2,3) [OF this]
  from ok have d: "distinct (clients st)" by (simp add: registry_ok_def)
  from i have "nat i < length (clients st)" by simp
  from set_erase_nth [OF d this] st'(1)
  have "clients st ! nat i \<notin> set (clients st')" by simp
  with st'(2) k True show ?thesis by auto
next
  case False
  with r obtain m where "st' = on_message (clients st ! nat i) m st"
    by (auto simp: read_event_def split: option.splits)
  with k show ?thesis by (auto simp: on_message_names)
qed

theorem username_never_overwritten_witness:
  "registry_ok room \<and> client_names room 4 = Some ''alice'' \<and>
   map_option (\<lambda>(i, st'). client_names st' 4) (read_event 0 5 ''alice2'' False room) =
     Some (Some ''alice'')"
proof -
  have ok: "registry_ok room" by (simp add: room_def registry_ok_def)
  have k: "client_names room 4 = Some ''alice''" by (simp add: room_def)
  have m: "std_string (fill_buffer ''alice2'') = Some ''alice2''"
    by (simp add: std_string_fill_buffer NUL_def)
  then have r: "read_event 0 5 ''alice2'' False room = Some (0, on_message 4 ''alice2'' room)"
    by (simp add: read_event_def room_def)
  have "0 \<le> (0::int)" "0 < int (length (clients room))" by (simp_all add: room_def)
  from username_never_overwritten [OF ok this k r]
  show ?thesis using ok k r by simp
qed

subsection \<open>Empty usernames\<close>

text \<open>
  Claim C10. A first chunk that starts with a NUL byte records the empty string as
  the username. When a connection whose entry is the empty string disconnects, the
  handler logs the bare descriptor and calls neither \<^verbatim>\<open>broadcast\<close> nor \<^verbatim>\<open>send\<close>,
  exactly as for a connection without an entry, although the entry exists and is
  erased.
\<close>

theorem empty_username_disconnect:
  assumes i: "0 \<le> i" "i < int (length (clients st))" and c: "clients st ! nat i = c"
  shows "(client_names st c = None \<and> 0 < valread \<and> data = NUL # rest \<longrightarrow>
            (\<exists>st'. read_event i valread data peer_reset st = Some (i, st') \<and>
                   client_names st' c = Some [])) \<and>
         (client_names st c = Some [] \<and> valread \<le> 0 \<longrightarrow>
            (\<exists>st'. read_event i valread data peer_reset st = Some (i - 1, st') \<and>
                   emitted st st' =
                     [Cout [S ''Client (socket '', N c, S '')''], Close c,
                      Clients_erase (nat i), Names_erase c] \<and>
                   filter broadcast_call (emitted st st') = [] \<and>
                   filter is_send (emitted st st') = []))"
proof (intro conjI impI)
  assume a: "client_names st c = None \<and> 0 < valread \<and> data = NUL # rest"
  then have "std_string (fill_buffer data) = Some []"
    by (simp add: std_string_fill_buffer)
  with a c have "read_event i valread data peer_reset st = Some (i, on_message c [] st)"
    by (simp add: read_event_def)
  with a show "\<exists>st'. read_event i valread data peer_reset st = Some (i, st') \<and>
                 client_names st' c = Some []"
    by (simp add: on_message_names)
next
  assume a: "client_names st c = Some [] \<and> valread \<le> 0"
  with c have e: "client_names st (clients st ! nat i) = Some []" by simp
  from a have "read_event i valread data peer_reset st = on_disconnect peer_reset i st"
    by (simp add: read_event_def)
  then show "\<exists>st'. read_event i valread data peer_reset st = Some (i - 1, st') \<and>
                   emitted st st' =
                     [Cout [S ''Client (socket '', N c, S '')''], Close c,
                      Clients_erase (nat i), Names_erase c] \<and>
                   filter broadcast_call (emitted st st') = [] \<and>
                   filter is_send (emitted st st') = []"
    using c by (simp add: on_disconnect_empty [OF e])
qed

theorem empty_username_disconnect_witness:
  "map_option (\<lambda>(i, st'). (i, client_names st' 6)) (read_event 2 1 [NUL] False room) =
     Some (2, Some []) \<and>
   client_names nameless 4 = Some [] \<and>
   map_option (\<lambda>(i, st'). (i, emitted nameless st')) (read_event 0 0 [] True nameless) =
     Some (- 1, [Cout [S ''Client (socket '', N 4, S '')''], Close 4,
                 Clients_erase 0, Names_erase 4])"
proof -
  have 1: "0 \<le> (2::int)" "2 < int (length (clients room))" "clients room ! nat 2 = 6"
    by (simp_all add: room_def)
  have 2: "0 \<le> (0::int)" "0 < int (length (clients nameless))" "clients nameless ! nat 0 = 4"
    by (simp_all add: nameless_def)
  have a: "client_names room 6 = None" "client_names nameless 4 = Some []"
    by (simp_all add: room_def nameless_def)
  from empty_username_disconnect [OF 1, of 1 "[NUL]" "[]" False]
       empty_username_disconnect [OF 2, of 0 "[]" "[]" True] a
  show ?thesis by auto
qed

section \<open>The Multiplexed Event Loop\<close>

subsection \<open>Erasing during the scan\<close>

text \<open>
  Claim C6. Whatever the readable descriptors and the answers of \<^verbatim>\<open>read\<close> are, and so
  whichever elements are erased at whichever positions, the scan of one iteration runs
  the loop body once for each position of \<^verbatim>\<open>clients\<close> as it was when the scan began,
  in order: with pairwise different descriptors every connection is visited exactly
  once. The connections left afterwards are the ones that did not disconnect. (Two
  events are excluded, after which the scan does not go on: a read that fills the
  whole buffer without a NUL byte, which makes line 177 undefined, and the departure
  of a connection with a username whose peer has reset it, where SIGPIPE ends the
  process.)
\<close>

theorem scan_visits_each_once:
  assumes "\<forall>c \<in> set (clients st). \<not> overruns e read_fds c \<and> \<not> sigpipes e read_fds st c"
  shows "\<exists>st'. client_loop e read_fds 0 st = Some st' \<and>
           visits (emitted st st') = clients st \<and>
           (distinct (clients st) \<longrightarrow>
              (\<forall>c. count_list (visits (emitted st st')) c =
                    (if c \<in> set (clients st) then 1 else 0))) \<and>
           clients st' = filter (\<lambda>c. \<not> disconnects e read_fds c) (clients st)"
proof -
  from client_loop_run [OF _ assms, of 0]
  obtain st' es where "client_loop e read_fds 0 st = Some st'" "trace st' = trace st @ es"
    "visits es = clients st"
    "clients st' = filter (\<lambda>c. \<not> disconnects e read_fds c) (clients st)"
    by auto
  then show ?thesis by (auto simp: count_list_distinct)
qed

theorem scan_visits_each_once_witness:
  "map_option (\<lambda>st'. (visits (emitted room st'), clients st'))
     (client_loop one_leaves [5, 6] 0 room) = Some ([4, 5, 6], [4, 6])"
proof -
  have "\<forall>c \<in> set (clients room).
          \<not> overruns one_leaves [5, 6] c \<and> \<not> sigpipes one_leaves [5, 6] room c"
    by (simp add: room_def overruns_def sigpipes_def one_leaves_def std_string_fill_buffer
        NUL_def)
  from scan_visits_each_once [OF this]
  show ?thesis by (auto simp: room_def disconnects_def one_leaves_def)
qed

subsection \<open>A failing \<^verbatim>\<open>accept\<close>\<close>

text \<open>
  Claim C8, as the code has it. When \<^verbatim>\<open>select\<close> succeeded, the listening socket is
  readable and \<^verbatim>\<open>accept\<close> fails, the iteration logs the failure and ends there (the
  \<^verbatim>\<open>continue\<close> of line 126): it returns, both containers are unchanged, and the client
  loop is not run, so no connection is read in this iteration.
\<close>

theorem accept_failure_ends_iteration:
  assumes "0 \<le> activity e" "server_fd e \<in> set (readable e)" "new_client e < 0"
  shows "\<exists>st'. main_iteration e st = Some st' \<and>
           emitted st st' = [Cerr [S ''Accept failed!'']] \<and>
           visits (emitted st st') = [] \<and>
           clients st' = clients st \<and> client_names st' = client_names st"
  using assms by (simp add: main_iteration_def select_fds_def Let_def)

theorem accept_failure_ends_iteration_witness:
  "0 \<le> activity accept_fails \<and> new_client accept_fails < 0 \<and>
   map_option (\<lambda>st'. (emitted room st', clients st')) (main_iteration accept_fails room) =
     Some ([Cerr [S ''Accept failed!'']], [4, 5, 6])"
  using accept_failure_ends_iteration [of accept_fails room]
  by (auto simp: accept_fails_def room_def)

text \<open>
  The claim as it is written fails: connection 4 is reported readable by the same
  \<^verbatim>\<open>select\<close>, and the iteration ends without running the loop body for it.
\<close>

theorem accept_failure_counterexample:
  "4 \<in> set (select_fds accept_fails room) \<and>
   map_option (\<lambda>st'. visits (emitted room st')) (main_iteration accept_fails room) = Some [] \<and>
   map_option (emitted room) (main_iteration accept_fails room) =
     Some [Cerr [S ''Accept failed!'']]"
  by (simp add: main_iteration_def select_fds_def accept_fails_def room_def Let_def)

end
